theory Spec2Isabelle
  imports Complex_Main
begin

section \<open>Monte Carlo integration (task\_2.py)\<close>

text \<open>
  The module estimates the integral of \<open>f\<close> over \<open>[lower_bound, upper_bound]\<close> by throwing
  random points into the rectangle \<open>[lower_bound, upper_bound] \<times> [0, f_max]\<close> and scaling
  the fraction of points under the curve by the area of the rectangle.

  Modelling decisions.
  \<^item> A Python \<open>float\<close> is a \<open>pyfloat\<close>: a finite value, one of the two infinities, or
    NaN. An operation on finite values is exact as long as its result is within the range
    of a double, and gives an infinity (or raises, for \<open>**\<close>) when it is not. Rounding
    within the range and the sign of zero are outside the model.
  \<^item> The module \<open>random\<close> is the standard library's, not this repository's. Its
    process-wide generator is a parameter: a type \<open>'s\<close> of generator states, the state
    that \<open>random.seed(n)\<close> installs, and \<open>random.random()\<close> as a function from a state to
    the number drawn and the next state. The one global generator of the interpreter is
    threaded through every function that touches it.
  \<^item> An exception is a value \<open>Inl e\<close> of the result; a call that returns \<open>v\<close> yields
    \<open>Inr v\<close>. The integrand is any callable: it returns a float or raises.
\<close>

subsection \<open>Floats\<close>

datatype pyfloat = Finite real | PInf | NInf | NaN

datatype error =
    ValueError_samples_count   \<comment> \<open>line 54: samples\_count must be a positive integer\<close>
  | ValueError_bounds          \<comment> \<open>line 56: upper\_bound must exceed lower\_bound\<close>
  | OverflowError              \<comment> \<open>raised by \<open>**\<close> and by \<open>/\<close> on integers\<close>
  | ZeroDivisionError          \<comment> \<open>raised by \<open>/\<close>\<close>

text \<open>
  The least magnitude that round-to-nearest takes to infinity in binary64: the midpoint
  between the largest double \<open>2^1024 - 2^971\<close> and \<open>2^1024\<close>.
\<close>

definition float_overflow :: real where
  "float_overflow = 2 ^ 1024 - 2 ^ 970"

text \<open>The float that an arithmetic operation delivers for the exact result \<open>r\<close>.\<close>

definition fround :: "real \<Rightarrow> pyfloat" where
  "fround r =
     (if float_overflow \<le> r then PInf else if r \<le> - float_overflow then NInf else Finite r)"

fun fneg :: "pyfloat \<Rightarrow> pyfloat" where
  "fneg (Finite a) = Finite (- a)"
| "fneg PInf = NInf"
| "fneg NInf = PInf"
| "fneg NaN = NaN"

fun fadd :: "pyfloat \<Rightarrow> pyfloat \<Rightarrow> pyfloat" where
  "fadd (Finite a) (Finite b) = fround (a + b)"
| "fadd NaN y = NaN"
| "fadd x NaN = NaN"
| "fadd PInf NInf = NaN"
| "fadd NInf PInf = NaN"
| "fadd PInf y = PInf"
| "fadd x PInf = PInf"
| "fadd NInf y = NInf"
| "fadd x NInf = NInf"

definition fsub :: "pyfloat \<Rightarrow> pyfloat \<Rightarrow> pyfloat" where
  "fsub x y = fadd x (fneg y)"

text \<open>An infinity times \<open>r\<close>: NaN for zero, the infinity with the sign of the product otherwise.\<close>

definition inf_times :: "bool \<Rightarrow> real \<Rightarrow> pyfloat" where
  "inf_times positive r =
     (if r = 0 then NaN else if (0 < r) = positive then PInf else NInf)"

fun fmul :: "pyfloat \<Rightarrow> pyfloat \<Rightarrow> pyfloat" where
  "fmul (Finite a) (Finite b) = fround (a * b)"
| "fmul NaN y = NaN"
| "fmul x NaN = NaN"
| "fmul PInf (Finite b) = inf_times True b"
| "fmul NInf (Finite b) = inf_times False b"
| "fmul (Finite a) PInf = inf_times True a"
| "fmul (Finite a) NInf = inf_times False a"
| "fmul PInf PInf = PInf"
| "fmul PInf NInf = NInf"
| "fmul NInf PInf = NInf"
| "fmul NInf NInf = PInf"

fun fabs :: "pyfloat \<Rightarrow> pyfloat" where
  "fabs (Finite a) = Finite \<bar>a\<bar>"
| "fabs PInf = PInf"
| "fabs NInf = PInf"
| "fabs NaN = NaN"

text \<open>The comparisons \<open><=\<close>, \<open><\<close> and \<open>==\<close>: every comparison with NaN is false.\<close>

fun fle :: "pyfloat \<Rightarrow> pyfloat \<Rightarrow> bool" where
  "fle (Finite a) (Finite b) \<longleftrightarrow> a \<le> b"
| "fle NaN y \<longleftrightarrow> False"
| "fle x NaN \<longleftrightarrow> False"
| "fle NInf y \<longleftrightarrow> True"
| "fle x PInf \<longleftrightarrow> True"
| "fle PInf y \<longleftrightarrow> False"
| "fle x NInf \<longleftrightarrow> False"

fun flt :: "pyfloat \<Rightarrow> pyfloat \<Rightarrow> bool" where
  "flt (Finite a) (Finite b) \<longleftrightarrow> a < b"
| "flt NaN y \<longleftrightarrow> False"
| "flt x NaN \<longleftrightarrow> False"
| "flt PInf y \<longleftrightarrow> False"
| "flt x NInf \<longleftrightarrow> False"
| "flt NInf y \<longleftrightarrow> True"
| "flt x PInf \<longleftrightarrow> True"

definition feq :: "pyfloat \<Rightarrow> pyfloat \<Rightarrow> bool" where
  "feq x y \<longleftrightarrow> x \<noteq> NaN \<and> x = y"

text \<open>The builtin \<open>max(a, b)\<close> keeps \<open>a\<close> unless \<open>b > a\<close>.\<close>

definition pymax :: "pyfloat \<Rightarrow> pyfloat \<Rightarrow> pyfloat" where
  "pymax a b = (if flt a b then b else a)"

text \<open>
  \<open>x ** k\<close> for a float \<open>x\<close> and a literal exponent \<open>k\<close>: CPython raises \<open>OverflowError\<close>
  when the power of a finite \<open>x\<close> overflows.
\<close>

definition float_pow :: "pyfloat \<Rightarrow> nat \<Rightarrow> error + pyfloat" where
  "float_pow x k =
     (if k = 0 then Inr (Finite 1)
      else case x of
             Finite a \<Rightarrow>
               if float_overflow \<le> \<bar>a ^ k\<bar> then Inl OverflowError else Inr (Finite (a ^ k))
           | PInf \<Rightarrow> Inr PInf
           | NInf \<Rightarrow> Inr (if even k then PInf else NInf)
           | NaN \<Rightarrow> Inr NaN)"

text \<open>\<open>x / y\<close> on floats raises for a zero divisor.\<close>

fun fdiv :: "pyfloat \<Rightarrow> pyfloat \<Rightarrow> error + pyfloat" where
  "fdiv x (Finite b) =
     (if b = 0 then Inl ZeroDivisionError
      else Inr (case x of
                  Finite a \<Rightarrow> fround (a / b)
                | PInf \<Rightarrow> inf_times True b
                | NInf \<Rightarrow> inf_times False b
                | NaN \<Rightarrow> NaN))"
| "fdiv NaN y = Inr NaN"
| "fdiv x NaN = Inr NaN"
| "fdiv (Finite a) y = Inr (Finite 0)"
| "fdiv x y = Inr NaN"

text \<open>
  \<open>c / n\<close> on integers: true division, which raises for \<open>n = 0\<close> and when the quotient is
  too large for a float.
\<close>

definition int_truediv :: "int \<Rightarrow> int \<Rightarrow> error + pyfloat" where
  "int_truediv c n =
     (if n = 0 then Inl ZeroDivisionError
      else if float_overflow \<le> \<bar>real_of_int c / real_of_int n\<bar> then Inl OverflowError
      else Inr (Finite (real_of_int c / real_of_int n)))"

subsection \<open>The generator of the module random\<close>

record 's prng =
  seed_state :: "int \<Rightarrow> 's"            \<comment> \<open>the state installed by \<open>random.seed(n)\<close>\<close>
  random_draw :: "'s \<Rightarrow> real \<times> 's"    \<comment> \<open>\<open>random.random()\<close>: the number drawn, the next state\<close>

text \<open>\<open>random.uniform(a, b)\<close> is \<open>a + (b - a) * random()\<close>: one draw.\<close>

definition uniform :: "'s prng \<Rightarrow> pyfloat \<Rightarrow> pyfloat \<Rightarrow> 's \<Rightarrow> pyfloat \<times> 's" where
  "uniform R a b g =
     (let (u, g') = random_draw R g in (fadd a (fmul (fsub b a) (Finite u)), g'))"

text \<open>The state after one draw, and the \<open>j\<close>-th number of the stream that starts in \<open>g\<close>.\<close>

definition advance :: "'s prng \<Rightarrow> 's \<Rightarrow> 's" where
  "advance R g = snd (random_draw R g)"

definition stream_at :: "'s prng \<Rightarrow> 's \<Rightarrow> nat \<Rightarrow> real" where
  "stream_at R g j = fst (random_draw R ((advance R ^^ j) g))"

text \<open>
  What \<open>random.random()\<close> promises: every number drawn lies in \<open>[0, 1)\<close>.
\<close>

definition unit_range :: "'s prng \<Rightarrow> bool" where
  "unit_range R \<longleftrightarrow> (\<forall>g. 0 \<le> fst (random_draw R g) \<and> fst (random_draw R g) < 1)"

text \<open>
  A generator that replays a script, to run the definitions on concrete inputs: its
  state is the seed and the number of draws made since seeding, and the \<open>p\<close>-th draw
  after \<open>seed(n)\<close> is \<open>script n p\<close>.
\<close>

definition scripted_prng :: "(int \<Rightarrow> nat \<Rightarrow> real) \<Rightarrow> (int \<times> nat) prng" where
  "scripted_prng script =
     \<lparr> seed_state = (\<lambda>n. (n, 0)),
       random_draw = (\<lambda>(n, p). (script n p, (n, Suc p))) \<rparr>"

text \<open>
  A script with all its numbers in \<open>[0, 1)\<close>: constantly \<open>1/2\<close> for the seed \<open>0\<close>, and
  \<open>1/2, 1/4, 3/4, 1/2, 1/2, ...\<close> for every other seed.
\<close>

definition demo_script :: "int \<Rightarrow> nat \<Rightarrow> real" where
  "demo_script n p =
     (if n = 0 then 1 / 2 else if p = 1 then 1 / 4 else if p = 2 then 3 / 4 else 1 / 2)"

text \<open>An integrand that raises strictly between \<open>1\<close> and \<open>2\<close> and is the identity elsewhere.\<close>

definition raising_integrand :: "pyfloat \<Rightarrow> error + pyfloat" where
  "raising_integrand x =
     (if flt (Finite 1) x \<and> flt x (Finite 2) then Inl OverflowError else Inr x)"

subsection \<open>The integrand and the estimator\<close>

definition integrand_function :: "pyfloat \<Rightarrow> error + pyfloat" where
  "integrand_function x_value = float_pow x_value 2"

text \<open>
  The loop of lines 69--74, \<open>k\<close> iterations left, \<open>c\<close> points under the curve so far. An
  exception of the integrand leaves the loop, after the two draws of that iteration.
\<close>

fun sampling_loop ::
  "'s prng \<Rightarrow> (pyfloat \<Rightarrow> error + pyfloat) \<Rightarrow> pyfloat \<Rightarrow> pyfloat \<Rightarrow> pyfloat \<Rightarrow> nat \<Rightarrow> nat \<Rightarrow> 's
     \<Rightarrow> (error + nat) \<times> 's" where
  "sampling_loop R f lo hi h 0 c g = (Inr c, g)"
| "sampling_loop R f lo hi h (Suc k) c g =
     (let (x_random, g1) = uniform R lo hi g;
          (y_random, g2) = uniform R (Finite 0) h g1
      in case f x_random of
           Inl e \<Rightarrow> (Inl e, g2)
         | Inr fx \<Rightarrow>
             sampling_loop R f lo hi h k (if fle y_random fx then c + 1 else c) g2)"

text \<open>
  \<open>estimate_integral_monte_carlo\<close>, lines 29--80. The last argument is the state of the
  global generator when the call starts; the second component of the result is its
  state when the call ends.
\<close>

definition estimate_integral_monte_carlo ::
  "'s prng \<Rightarrow> (pyfloat \<Rightarrow> error + pyfloat) \<Rightarrow> pyfloat \<Rightarrow> pyfloat \<Rightarrow> int \<Rightarrow> int \<Rightarrow> 's
     \<Rightarrow> (error + pyfloat) \<times> 's" where
  "estimate_integral_monte_carlo R f lower_bound upper_bound samples_count random_seed g =
     (if samples_count \<le> 0 then (Inl ValueError_samples_count, g)
      else if fle upper_bound lower_bound then (Inl ValueError_bounds, g)
      else
        let g0 = seed_state R random_seed in
        case f lower_bound of
          Inl e \<Rightarrow> (Inl e, g0)
        | Inr f_lower \<Rightarrow>
           (case f upper_bound of
              Inl e \<Rightarrow> (Inl e, g0)
            | Inr f_upper \<Rightarrow>
               (let max_function_value = pymax f_lower f_upper;
                    rectangle_area = fmul (fsub upper_bound lower_bound) max_function_value
                in case sampling_loop R f lower_bound upper_bound max_function_value
                          (nat samples_count) 0 g0 of
                     (Inl e, g') \<Rightarrow> (Inl e, g')
                   | (Inr points_under_curve, g') \<Rightarrow>
                       (case int_truediv (int points_under_curve) samples_count of
                          Inl e \<Rightarrow> (Inl e, g')
                        | Inr under_curve_ratio \<Rightarrow>
                            (Inr (fmul under_curve_ratio rectangle_area), g')))))"

text \<open>
  The points that the loop draws when no exception stops it, in order: each takes two
  numbers of the stream, the first for \<open>x\<close>, the second for \<open>y\<close>.
\<close>

fun sample_points ::
  "'s prng \<Rightarrow> pyfloat \<Rightarrow> pyfloat \<Rightarrow> pyfloat \<Rightarrow> nat \<Rightarrow> 's \<Rightarrow> (pyfloat \<times> pyfloat) list" where
  "sample_points R lo hi h 0 g = []"
| "sample_points R lo hi h (Suc k) g =
     (let (x_random, g1) = uniform R lo hi g;
          (y_random, g2) = uniform R (Finite 0) h g1
      in (x_random, y_random) # sample_points R lo hi h k g2)"

text \<open>The integrand returns at \<open>x\<close>; the point \<open>p\<close> is under the curve (line 73).\<close>

definition returns_at :: "(pyfloat \<Rightarrow> error + pyfloat) \<Rightarrow> pyfloat \<Rightarrow> bool" where
  "returns_at f x = (case f x of Inl e \<Rightarrow> False | Inr v \<Rightarrow> True)"

definition under_curve :: "(pyfloat \<Rightarrow> error + pyfloat) \<Rightarrow> pyfloat \<times> pyfloat \<Rightarrow> bool" where
  "under_curve f p = (case f (fst p) of Inl e \<Rightarrow> False | Inr fx \<Rightarrow> fle (snd p) fx)"

text \<open>
  The number of points a valid call draws before it ends: none when the integrand raises
  at an end point; otherwise the points up to and including the first at which the
  integrand raises, all \<open>samples_count\<close> of them when it raises at none.
\<close>

definition points_drawn ::
  "'s prng \<Rightarrow> (pyfloat \<Rightarrow> error + pyfloat) \<Rightarrow> pyfloat \<Rightarrow> pyfloat \<Rightarrow> int \<Rightarrow> int \<Rightarrow> nat" where
  "points_drawn R f lower_bound upper_bound samples_count random_seed =
     (case f lower_bound of
        Inl e \<Rightarrow> 0
      | Inr f_lower \<Rightarrow>
         (case f upper_bound of
            Inl e \<Rightarrow> 0
          | Inr f_upper \<Rightarrow>
              min (nat samples_count)
                (Suc (length (takeWhile (\<lambda>p. returns_at f (fst p))
                   (sample_points R lower_bound upper_bound (pymax f_lower f_upper)
                      (nat samples_count) (seed_state R random_seed)))))))"

subsection \<open>The references\<close>

text \<open>\<open>analytic_integral_x_squared\<close>, line 90; \<open>upper_bound ** 3\<close> is evaluated first.\<close>

definition analytic_integral_x_squared :: "pyfloat \<Rightarrow> pyfloat \<Rightarrow> error + pyfloat" where
  "analytic_integral_x_squared lower_bound upper_bound =
     (case float_pow upper_bound 3 of
        Inl e \<Rightarrow> Inl e
      | Inr u3 \<Rightarrow>
         (case float_pow lower_bound 3 of
            Inl e \<Rightarrow> Inl e
          | Inr l3 \<Rightarrow> fdiv (fsub u3 l3) (Finite 3)))"

text \<open>
  \<open>scipy.integrate.quad\<close> is a library function; SciPy may be absent. The outcome of the
  import is a parameter: \<open>None\<close> when it raises \<open>ImportError\<close>, \<open>Some quad\<close> when the module
  loads. \<open>quad\<close> returns the value and the estimate of its error, or raises (it calls
  the integrand, whose exceptions it lets through). Only \<open>ImportError\<close> is caught, and only
  around the import: \<open>None\<close> is returned for a missing SciPy, an exception of \<open>quad\<close>
  leaves the function.
\<close>

type_synonym quad =
  "(pyfloat \<Rightarrow> error + pyfloat) \<Rightarrow> pyfloat \<Rightarrow> pyfloat \<Rightarrow> error + pyfloat \<times> pyfloat"

definition try_quad_integration ::
  "quad option \<Rightarrow> (pyfloat \<Rightarrow> error + pyfloat) \<Rightarrow> pyfloat \<Rightarrow> pyfloat
     \<Rightarrow> error + (pyfloat \<times> pyfloat) option" where
  "try_quad_integration spi f lower_bound upper_bound =
     (case spi of
        None \<Rightarrow> Inr None
      | Some quad \<Rightarrow>
          (case quad f lower_bound upper_bound of
             Inl e \<Rightarrow> Inl e
           | Inr (result_value, abs_error_estimate) \<Rightarrow>
               Inr (Some (result_value, abs_error_estimate))))"

text \<open>
  A quadrature to run the definitions with: the midpoint rule, one evaluation of the
  integrand, whose exception it lets through.
\<close>

definition midpoint_quad :: quad where
  "midpoint_quad f a b =
     (case f (fmul (Finite (1 / 2)) (fadd a b)) of
        Inl e \<Rightarrow> Inl e
      | Inr v \<Rightarrow> Inr (fmul (fsub b a) v, Finite 0))"

subsection \<open>The entry point\<close>

text \<open>What \<open>main\<close> prints, one constructor for each \<open>print\<close> of lines 136--150.\<close>

datatype line =
    Title
  | MonteCarlo int pyfloat
  | Analytic pyfloat
  | AbsDifference pyfloat
  | SciPyMissing
  | QuadTitle
  | Quad pyfloat pyfloat
  | MCQuadDifference pyfloat

text \<open>
  \<open>main\<close>, lines 114--150: the lines printed, the exception that ended it (\<open>None\<close> when it
  returned), and the state of the global generator at the end.
\<close>

definition main :: "'s prng \<Rightarrow> quad option \<Rightarrow> 's \<Rightarrow> (line list \<times> error option) \<times> 's" where
  "main R spi g =
     (let lower_bound = Finite 0; upper_bound = Finite 2; samples_count = 200000 in
      case estimate_integral_monte_carlo R integrand_function lower_bound upper_bound
             samples_count 42 g of
        (Inl e, g') \<Rightarrow> (([], Some e), g')
      | (Inr monte_carlo_result, g') \<Rightarrow>
         (case analytic_integral_x_squared lower_bound upper_bound of
            Inl e \<Rightarrow> (([], Some e), g')
          | Inr analytic_result \<Rightarrow>
             (let out = [Title, MonteCarlo samples_count monte_carlo_result,
                         Analytic analytic_result,
                         AbsDifference (fabs (fsub monte_carlo_result analytic_result))]
              in case try_quad_integration spi integrand_function lower_bound upper_bound of
                   Inl e \<Rightarrow> ((out, Some e), g')
                 | Inr None \<Rightarrow> ((out @ [SciPyMissing], None), g')
                 | Inr (Some (quad_result, quad_error_estimate)) \<Rightarrow>
                     ((out @ [QuadTitle, Quad quad_result quad_error_estimate,
                              MCQuadDifference (fabs (fsub monte_carlo_result quad_result))],
                       None),
                      g'))))"

section \<open>Properties\<close>

subsection \<open>Floats\<close>

lemma float_overflow_gt_8: "8 < float_overflow"
  by (simp add: float_overflow_def)

lemma fround_Finite: "- float_overflow < r \<Longrightarrow> r < float_overflow \<Longrightarrow> fround r = Finite r"
  by (simp add: fround_def)

lemma fround_third:
  fixes d :: real
  assumes "\<not> float_overflow \<le> d" "\<not> d \<le> - float_overflow"
  shows "fround (d / 3) = Finite (d / 3)"
proof (rule fround_Finite)
  from float_overflow_gt_8 have pos: "0 < float_overflow" by simp
  from assms pos show "- float_overflow < d / 3" by linarith
  from assms pos show "d / 3 < float_overflow" by linarith
qed

lemma flt_not_fle: "flt a b \<Longrightarrow> \<not> fle b a"
  by (cases a; cases b) simp_all

lemma fle_refl: "x \<noteq> NaN \<Longrightarrow> fle x x"
  by (cases x) simp_all

lemma fmul_eq_Finite:
  assumes "fmul x y = Finite A"
  obtains a b where "x = Finite a" "y = Finite b" "A = a * b"
    "- float_overflow < a * b" "a * b < float_overflow"
  using assms
  by (cases x; cases y) (auto simp: fround_def inf_times_def split: if_splits)

lemma fsub_eq_Finite:
  assumes "fsub x y = Finite w"
  obtains a b where "x = Finite a" "y = Finite b" "w = a - b"
  using assms
  by (cases x; cases y) (auto simp: fsub_def fround_def split: if_splits)

subsection \<open>The stream and the points drawn from it\<close>

lemma uniform_eq:
  "uniform R a b g = (fadd a (fmul (fsub b a) (Finite (stream_at R g 0))), advance R g)"
  by (simp add: uniform_def stream_at_def advance_def split: prod.splits)

lemma stream_at_advance: "stream_at R (advance R g) j = stream_at R g (Suc j)"
  by (simp add: stream_at_def funpow_swap1)

lemma length_sample_points: "length (sample_points R lo hi h k g) = k"
  by (induction k arbitrary: g) (simp_all add: uniform_eq)

lemma nth_sample_points:
  "j < k \<Longrightarrow> sample_points R lo hi h k g ! j =
     (fadd lo (fmul (fsub hi lo) (Finite (stream_at R g (2 * j)))),
      fadd (Finite 0) (fmul (fsub h (Finite 0)) (Finite (stream_at R g (2 * j + 1)))))"
proof (induction k arbitrary: g j)
  case 0
  then show ?case by simp
next
  case (Suc k)
  show ?case
  proof (cases j)
    case 0
    then show ?thesis by (simp add: uniform_eq stream_at_advance)
  next
    case (Suc i)
    with Suc.prems have "i < k" by simp
    from Suc.IH [OF this, of "advance R (advance R g)"] Suc show ?thesis
      by (simp add: uniform_eq stream_at_advance)
  qed
qed

text \<open>A shorter run draws a prefix of the points of a longer one.\<close>

lemma take_sample_points:
  "j \<le> k \<Longrightarrow> take j (sample_points R lo hi h k g) = sample_points R lo hi h j g"
proof (induction k arbitrary: g j)
  case 0
  then show ?case by simp
next
  case (Suc k)
  show ?case
  proof (cases j)
    case 0
    then show ?thesis by simp
  next
    case (Suc i)
    with Suc.prems have "i \<le> k" by simp
    from Suc.IH [OF this] Suc show ?thesis
      by (simp add: uniform_eq)
  qed
qed

lemma count_le: "length (filter P (sample_points R lo hi h k g)) \<le> k"
  using length_filter_le [of P "sample_points R lo hi h k g"]
  by (simp add: length_sample_points)

lemma stream_at_unit: "unit_range R \<Longrightarrow> 0 \<le> stream_at R g j \<and> stream_at R g j < 1"
  by (simp add: unit_range_def stream_at_def)

subsection \<open>The loop\<close>

text \<open>
  When the integrand returns at every point, the loop returns the number of points under
  the curve, added to its counter, and has advanced the generator by two draws a point.
\<close>

lemma sampling_loop_returns:
  "list_all (\<lambda>p. returns_at f (fst p)) (sample_points R lo hi h k g) \<Longrightarrow>
   sampling_loop R f lo hi h k c g =
     (Inr (c + length (filter (under_curve f) (sample_points R lo hi h k g))),
      (advance R ^^ (2 * k)) g)"
proof (induction k arbitrary: c g)
  case 0
  show ?case by simp
next
  case (Suc k)
  let ?x = "fadd lo (fmul (fsub hi lo) (Finite (stream_at R g 0)))"
  let ?g2 = "advance R (advance R g)"
  from Suc.prems obtain fx where fx: "f ?x = Inr fx"
    by (auto simp: uniform_eq returns_at_def split: sum.splits)
  from Suc.prems have "list_all (\<lambda>p. returns_at f (fst p)) (sample_points R lo hi h k ?g2)"
    by (simp add: uniform_eq)
  from Suc.IH [OF this] fx show ?case
    by (simp add: uniform_eq under_curve_def funpow_swap1)
qed

text \<open>When the integrand raises at some point, the loop raises.\<close>

lemma sampling_loop_raises:
  "\<not> list_all (\<lambda>p. returns_at f (fst p)) (sample_points R lo hi h k g) \<Longrightarrow>
   \<exists>e. fst (sampling_loop R f lo hi h k c g) = Inl e"
proof (induction k arbitrary: c g)
  case 0
  then show ?case by simp
next
  case (Suc k)
  let ?x = "fadd lo (fmul (fsub hi lo) (Finite (stream_at R g 0)))"
  let ?g2 = "advance R (advance R g)"
  show ?case
  proof (cases "f ?x")
    case (Inl e)
    then show ?thesis by (simp add: uniform_eq)
  next
    case (Inr fx)
    with Suc.prems
    have "\<not> list_all (\<lambda>p. returns_at f (fst p)) (sample_points R lo hi h k ?g2)"
      by (simp add: uniform_eq returns_at_def)
    from Suc.IH [OF this] Inr show ?thesis
      by (simp add: uniform_eq)
  qed
qed

text \<open>
  Whether it returns or raises, the loop has made two draws for each point up to and
  including the first at which the integrand raises.
\<close>

lemma sampling_loop_state:
  "snd (sampling_loop R f lo hi h k c g) =
     (advance R ^^
        (2 * min k (Suc (length (takeWhile (\<lambda>p. returns_at f (fst p))
                                   (sample_points R lo hi h k g)))))) g"
proof (induction k arbitrary: c g)
  case 0
  show ?case by simp
next
  case (Suc k)
  let ?x = "fadd lo (fmul (fsub hi lo) (Finite (stream_at R g 0)))"
  let ?g2 = "advance R (advance R g)"
  show ?case
  proof (cases "f ?x")
    case (Inl e)
    then show ?thesis
      by (simp add: uniform_eq returns_at_def eval_nat_numeral)
  next
    case (Inr fx)
    then show ?thesis
      by (simp add: uniform_eq returns_at_def Suc.IH funpow_swap1)
  qed
qed

subsection \<open>The estimator\<close>

lemma estimate_invalid:
  "samples_count \<le> 0 \<or> fle upper_bound lower_bound \<Longrightarrow>
   estimate_integral_monte_carlo R f lower_bound upper_bound samples_count random_seed g =
     (Inl (if samples_count \<le> 0 then ValueError_samples_count else ValueError_bounds), g)"
  by (auto simp: estimate_integral_monte_carlo_def)

text \<open>The ratio of a count of drawn points to \<open>samples_count\<close> is a float in \<open>[0, 1]\<close>.\<close>

lemma int_truediv_ratio:
  assumes "0 < n" "c \<le> nat n"
  shows "int_truediv (int c) n = Inr (Finite (real c / real_of_int n))"
    and "0 \<le> real c / real_of_int n" and "real c / real_of_int n \<le> 1"
proof -
  from assms have le: "real c \<le> real_of_int n" by linarith
  with assms(1) show r0: "0 \<le> real c / real_of_int n" and r1: "real c / real_of_int n \<le> 1"
    by simp_all
  from r0 r1 float_overflow_gt_8 have "\<bar>real c / real_of_int n\<bar> < float_overflow"
    by linarith
  with assms(1) show "int_truediv (int c) n = Inr (Finite (real c / real_of_int n))"
    by (simp add: int_truediv_def)
qed

text \<open>
  A valid call returns when the integrand returns at the two end points and at every
  point drawn; it has then made two draws for each of its \<open>samples_count\<close> points.
\<close>

lemma estimate_returns:
  assumes "0 < samples_count" "\<not> fle upper_bound lower_bound"
    and "f lower_bound = Inr a" "f upper_bound = Inr b"
    and "list_all (\<lambda>p. returns_at f (fst p))
           (sample_points R lower_bound upper_bound (pymax a b) (nat samples_count)
              (seed_state R random_seed))"
  shows "estimate_integral_monte_carlo R f lower_bound upper_bound samples_count random_seed g =
     (Inr (fmul (Finite (real (length (filter (under_curve f)
                   (sample_points R lower_bound upper_bound (pymax a b) (nat samples_count)
                      (seed_state R random_seed))))
                 / real_of_int samples_count))
            (fmul (fsub upper_bound lower_bound) (pymax a b))),
      (advance R ^^ (2 * nat samples_count)) (seed_state R random_seed))"
proof -
  let ?pts = "sample_points R lower_bound upper_bound (pymax a b) (nat samples_count)
                (seed_state R random_seed)"
  have "length (filter (under_curve f) ?pts) \<le> nat samples_count"
    by (rule count_le)
  from int_truediv_ratio(1) [OF assms(1) this] assms(1-4) sampling_loop_returns [OF assms(5), of 0]
  show ?thesis
    by (simp add: estimate_integral_monte_carlo_def Let_def)
qed

text \<open>A valid call raises when the integrand raises at an end point or at a point drawn.\<close>

lemma estimate_raises_at_end_point:
  assumes "0 < samples_count" "\<not> fle upper_bound lower_bound"
    and "\<not> (returns_at f lower_bound \<and> returns_at f upper_bound)"
  shows "\<exists>e. estimate_integral_monte_carlo R f lower_bound upper_bound samples_count
               random_seed g = (Inl e, seed_state R random_seed)"
  using assms
  by (auto simp: estimate_integral_monte_carlo_def returns_at_def split: sum.splits)

lemma estimate_raises_at_point:
  assumes "0 < samples_count" "\<not> fle upper_bound lower_bound"
    and "f lower_bound = Inr a" "f upper_bound = Inr b"
    and "\<not> list_all (\<lambda>p. returns_at f (fst p))
           (sample_points R lower_bound upper_bound (pymax a b) (nat samples_count)
              (seed_state R random_seed))"
  shows "\<exists>e. fst (estimate_integral_monte_carlo R f lower_bound upper_bound samples_count
                    random_seed g) = Inl e"
proof -
  from sampling_loop_raises [OF assms(5), of 0] obtain e where
    "fst (sampling_loop R f lower_bound upper_bound (pymax a b) (nat samples_count) 0
            (seed_state R random_seed)) = Inl e"
    by blast
  with assms(1-4) show ?thesis
    by (auto simp: estimate_integral_monte_carlo_def Let_def split: prod.splits sum.splits)
qed

text \<open>The state a valid call leaves the generator in.\<close>

lemma estimate_state:
  assumes "0 < samples_count" "\<not> fle upper_bound lower_bound"
  shows "snd (estimate_integral_monte_carlo R f lower_bound upper_bound samples_count
                random_seed g) =
         (advance R ^^ (2 * points_drawn R f lower_bound upper_bound samples_count random_seed))
           (seed_state R random_seed)"
proof (cases "f lower_bound")
  case (Inl e)
  with assms show ?thesis
    by (simp add: estimate_integral_monte_carlo_def points_drawn_def)
next
  case a: (Inr a)
  show ?thesis
  proof (cases "f upper_bound")
    case (Inl e)
    with assms a show ?thesis
      by (simp add: estimate_integral_monte_carlo_def points_drawn_def)
  next
    case b: (Inr b)
    let ?loop = "sampling_loop R f lower_bound upper_bound (pymax a b) (nat samples_count) 0
                   (seed_state R random_seed)"
    from assms a b
    have "snd (estimate_integral_monte_carlo R f lower_bound upper_bound samples_count
                 random_seed g) = snd ?loop"
      by (simp add: estimate_integral_monte_carlo_def Let_def split: prod.splits sum.splits)
    with a b show ?thesis
      by (simp add: sampling_loop_state points_drawn_def)
  qed
qed

lemma points_drawn_le:
  "points_drawn R f lower_bound upper_bound samples_count random_seed \<le> nat samples_count"
  by (simp add: points_drawn_def split: sum.splits)

lemma points_drawn_all:
  assumes "f lower_bound = Inr a" "f upper_bound = Inr b"
    and "list_all (\<lambda>p. returns_at f (fst p))
           (sample_points R lower_bound upper_bound (pymax a b) (nat samples_count)
              (seed_state R random_seed))"
  shows "points_drawn R f lower_bound upper_bound samples_count random_seed = nat samples_count"
proof -
  let ?pts = "sample_points R lower_bound upper_bound (pymax a b) (nat samples_count)
                (seed_state R random_seed)"
  from assms(3) have "takeWhile (\<lambda>p. returns_at f (fst p)) ?pts = ?pts"
    by (simp add: list_all_iff)
  then have "length (takeWhile (\<lambda>p. returns_at f (fst p)) ?pts) = nat samples_count"
    by (simp only: length_sample_points)
  with assms(1,2) show ?thesis
    by (simp add: points_drawn_def)
qed

subsection \<open>The demonstration inputs\<close>

lemma unit_range_demo: "unit_range (scripted_prng demo_script)"
  by (simp add: unit_range_def scripted_prng_def demo_script_def)

lemma fround_small: "\<bar>r\<bar> \<le> 8 \<Longrightarrow> fround r = Finite r"
  using float_overflow_gt_8 by (intro fround_Finite) linarith+

lemma integrand_function_small:
  assumes "\<bar>x\<bar> \<le> 2"
  shows "integrand_function (Finite x) = Inr (Finite (x ^ 2))"
proof -
  from assms have "\<bar>x\<bar> ^ 2 \<le> 2 ^ 2" by (intro power_mono) simp_all
  then have "\<bar>x ^ 2\<bar> \<le> 4" by (simp add: power_abs)
  with float_overflow_gt_8 have "\<bar>x ^ 2\<bar> < float_overflow" by linarith
  then show ?thesis by (simp add: integrand_function_def float_pow_def)
qed

text \<open>Three points from the script, on \<open>[0, 2]\<close> under the height \<open>4\<close> and the height \<open>2\<close>.\<close>

lemma demo_points_4:
  "sample_points (scripted_prng demo_script) (Finite 0) (Finite 2) (Finite 4) 3 (42, 0) =
     [(Finite 1, Finite 1), (Finite (3 / 2), Finite 2), (Finite 1, Finite 2)]"
  by (simp add: eval_nat_numeral uniform_def scripted_prng_def demo_script_def fsub_def
        fround_small)

lemma demo_points_2:
  "sample_points (scripted_prng demo_script) (Finite 0) (Finite 2) (Finite 2) 3 (42, 0) =
     [(Finite 1, Finite (1 / 2)), (Finite (3 / 2), Finite 1), (Finite 1, Finite 1)]"
  by (simp add: eval_nat_numeral uniform_def scripted_prng_def demo_script_def fsub_def
        fround_small)

lemma demo_seed: "seed_state (scripted_prng demo_script) n = (n, 0)"
  by (simp add: scripted_prng_def)

lemma demo_advance: "(advance (scripted_prng demo_script) ^^ k) (n, p) = (n, p + k)"
  by (induction k) (simp_all add: advance_def scripted_prng_def)

lemma demo_integrand_values:
  "integrand_function (Finite 0) = Inr (Finite 0)"
  "integrand_function (Finite 1) = Inr (Finite 1)"
  "integrand_function (Finite (3 / 2)) = Inr (Finite (9 / 4))"
  "integrand_function (Finite 2) = Inr (Finite 4)"
  using integrand_function_small [of 0] integrand_function_small [of 1]
    integrand_function_small [of "3 / 2"] integrand_function_small [of 2]
  by (simp_all add: power2_eq_square)

text \<open>\<open>x\<^sup>2\<close> on \<open>[0, 2]\<close> with three points of the script: two of them under the curve.\<close>

lemma demo_estimate:
  "estimate_integral_monte_carlo (scripted_prng demo_script) integrand_function
     (Finite 0) (Finite 2) 3 42 g = (Inr (Finite (2 / 3 * (2 * 4))), (42, 6))"
proof -
  have m: "pymax (Finite 0) (Finite 4) = Finite 4"
    by (simp add: pymax_def)
  have r: "list_all (\<lambda>p. returns_at integrand_function (fst p))
             (sample_points (scripted_prng demo_script) (Finite 0) (Finite 2)
                (pymax (Finite 0) (Finite 4)) (nat 3) (seed_state (scripted_prng demo_script) 42))"
    by (simp add: m demo_seed demo_points_4 returns_at_def demo_integrand_values)
  have v: "fmul (Finite (2 / 3)) (fmul (fsub (Finite 2) (Finite 0)) (Finite 4)) =
           Finite (2 / 3 * (2 * 4))"
    by (simp add: fsub_def fround_small)
  have "(0::int) < 3" "\<not> fle (Finite 2) (Finite 0)" by simp_all
  from estimate_returns [OF this demo_integrand_values(1) demo_integrand_values(4) r, of g] v
  show ?thesis
    by (simp add: m demo_seed demo_points_4 demo_advance under_curve_def demo_integrand_values)
qed

text \<open>The same with one point, \<open>(1, 1)\<close>, which is on the curve.\<close>

lemma demo_estimate_one:
  "estimate_integral_monte_carlo (scripted_prng demo_script) integrand_function
     (Finite 0) (Finite 2) 1 42 g = (Inr (Finite 8), (42, 2))"
proof -
  have m: "pymax (Finite 0) (Finite 4) = Finite 4"
    by (simp add: pymax_def)
  have p: "sample_points (scripted_prng demo_script) (Finite 0) (Finite 2) (Finite 4) (Suc 0)
             (42, 0) = [(Finite 1, Finite 1)]"
    using take_sample_points [of "Suc 0" 3 "scripted_prng demo_script" "Finite 0" "Finite 2"
            "Finite 4" "(42, 0)"]
    by (simp add: demo_points_4)
  have r: "list_all (\<lambda>p. returns_at integrand_function (fst p))
             (sample_points (scripted_prng demo_script) (Finite 0) (Finite 2)
                (pymax (Finite 0) (Finite 4)) (nat 1) (seed_state (scripted_prng demo_script) 42))"
    by (simp add: m demo_seed p returns_at_def demo_integrand_values del: sample_points.simps)
  have v: "fmul (Finite 1) (fmul (fsub (Finite 2) (Finite 0)) (Finite 4)) = Finite 8"
    by (simp add: fsub_def fround_small)
  have "(0::int) < 1" "\<not> fle (Finite 2) (Finite 0)" by simp_all
  from estimate_returns [OF this demo_integrand_values(1) demo_integrand_values(4) r, of g] v
  show ?thesis
    by (simp add: m demo_seed p demo_advance under_curve_def demo_integrand_values
          del: sample_points.simps)
qed

subsection \<open>The claims\<close>

text \<open>
  Claim C1. A call with a positive \<open>samples_count\<close> and \<open>lower_bound < upper_bound\<close> returns
  an estimate exactly when the integrand returns at the two end points and at every point
  drawn, and the estimate it returns is the number of drawn points with \<open>y \<le> f x\<close>,
  divided by \<open>samples_count\<close>, times the area of the rectangle: the width
  \<open>upper_bound - lower_bound\<close> times the height \<open>max (f lower_bound) (f upper_bound)\<close>, in
  float arithmetic. The height is computed from the two values at the end points only.
\<close>

theorem estimate_is_ratio_times_area:
  assumes "0 < samples_count" and "flt lower_bound upper_bound"
  shows "(\<exists>g'. estimate_integral_monte_carlo R f lower_bound upper_bound samples_count
                 random_seed g = (Inr v, g')) \<longleftrightarrow>
         (\<exists>f_lower f_upper.
            f lower_bound = Inr f_lower \<and> f upper_bound = Inr f_upper \<and>
            list_all (\<lambda>p. returns_at f (fst p))
              (sample_points R lower_bound upper_bound (pymax f_lower f_upper)
                 (nat samples_count) (seed_state R random_seed)) \<and>
            v = fmul (Finite (real (length (filter (under_curve f)
                          (sample_points R lower_bound upper_bound (pymax f_lower f_upper)
                             (nat samples_count) (seed_state R random_seed))))
                        / real_of_int samples_count))
                  (fmul (fsub upper_bound lower_bound) (pymax f_lower f_upper)))"
    (is "?returns \<longleftrightarrow> ?formula")
proof
  from assms(2) have valid: "\<not> fle upper_bound lower_bound" by (rule flt_not_fle)
  {
    assume ?formula
    then obtain a b where ab: "f lower_bound = Inr a" "f upper_bound = Inr b"
      and pts: "list_all (\<lambda>p. returns_at f (fst p))
                  (sample_points R lower_bound upper_bound (pymax a b)
                     (nat samples_count) (seed_state R random_seed))"
      and v: "v = fmul (Finite (real (length (filter (under_curve f)
                          (sample_points R lower_bound upper_bound (pymax a b)
                             (nat samples_count) (seed_state R random_seed))))
                        / real_of_int samples_count))
                  (fmul (fsub upper_bound lower_bound) (pymax a b))"
      by blast
    from estimate_returns [OF assms(1) valid ab pts, of g] v show ?returns by simp
  }
  {
    assume ?returns
    then obtain g' where ret: "estimate_integral_monte_carlo R f lower_bound upper_bound
                                 samples_count random_seed g = (Inr v, g')"
      by blast
    have ends: "returns_at f lower_bound \<and> returns_at f upper_bound"
    proof (rule ccontr)
      assume "\<not> (returns_at f lower_bound \<and> returns_at f upper_bound)"
      from estimate_raises_at_end_point [OF assms(1) valid this, of R random_seed g] ret
      show False by simp
    qed
    then obtain a b where ab: "f lower_bound = Inr a" "f upper_bound = Inr b"
      by (auto simp: returns_at_def split: sum.splits)
    have pts: "list_all (\<lambda>p. returns_at f (fst p))
                 (sample_points R lower_bound upper_bound (pymax a b)
                    (nat samples_count) (seed_state R random_seed))"
    proof (rule ccontr)
      assume "\<not> list_all (\<lambda>p. returns_at f (fst p))
                 (sample_points R lower_bound upper_bound (pymax a b)
                    (nat samples_count) (seed_state R random_seed))"
      from estimate_raises_at_point [OF assms(1) valid ab this, of g] ret
      show False by simp
    qed
    from estimate_returns [OF assms(1) valid ab pts, of g] ret ab pts
    show ?formula by simp
  }
qed

text \<open>
  \<open>x\<^sup>2\<close> on \<open>[0, 2]\<close> with three points of the script: the height is \<open>4\<close>, the points are
  \<open>(1, 1)\<close>, \<open>(3/2, 2)\<close> and \<open>(1, 2)\<close>, two of them are under the curve, and the estimate
  is \<open>2/3 * (2 * 4)\<close>.
\<close>

theorem estimate_is_ratio_times_area_witness:
  "(0::int) < 3 \<and> flt (Finite 0) (Finite 2) \<and>
   (\<exists>g'. estimate_integral_monte_carlo (scripted_prng demo_script) integrand_function
            (Finite 0) (Finite 2) 3 42 (7, 5) = (Inr (Finite (2 / 3 * (2 * 4))), g'))"
proof -
  have a: "integrand_function (Finite 0) = Inr (Finite 0)"
    and b: "integrand_function (Finite 2) = Inr (Finite 4)"
    using integrand_function_small [of 0] integrand_function_small [of 2] by simp_all
  have m: "pymax (Finite 0) (Finite 4) = Finite 4"
    by (simp add: pymax_def)
  have r: "list_all (\<lambda>p. returns_at integrand_function (fst p))
             [(Finite 1, Finite 1), (Finite (3 / 2), Finite 2), (Finite 1, Finite 2)]"
    using integrand_function_small [of 1] integrand_function_small [of "3 / 2"]
    by (simp add: returns_at_def)
  have c: "filter (under_curve integrand_function)
             [(Finite 1, Finite 1), (Finite (3 / 2), Finite 2), (Finite 1, Finite 2)] =
           [(Finite 1, Finite 1), (Finite (3 / 2), Finite 2)]"
    using integrand_function_small [of 1] integrand_function_small [of "3 / 2"]
    by (simp add: under_curve_def power2_eq_square)
  have v: "fmul (Finite (2 / 3)) (fmul (fsub (Finite 2) (Finite 0)) (Finite 4)) =
           Finite (2 / 3 * (2 * 4))"
    by (simp add: fsub_def fround_small)
  from estimate_is_ratio_times_area
         [of 3 "Finite 0" "Finite 2" "scripted_prng demo_script" integrand_function 42 "(7, 5)"
             "Finite (2 / 3 * (2 * 4))"]
    a b m r c v
  show ?thesis
    by (simp add: demo_seed demo_points_4)
qed

text \<open>
  Claim C2. With an integrand that returns everywhere, the call raises exactly when
  \<open>samples_count \<le> 0\<close> or \<open>upper_bound \<le> lower_bound\<close>. With any integrand, such a call
  raises \<open>ValueError\<close> (for the count first, then for the bounds) and leaves the state of
  the generator as it found it: nothing was seeded and nothing was drawn.
\<close>

theorem invalid_arguments_rejected_before_randomness:
  "((\<exists>e. fst (estimate_integral_monte_carlo R (\<lambda>x. Inr (F x)) lower_bound upper_bound
              samples_count random_seed g) = Inl e)
      \<longleftrightarrow> samples_count \<le> 0 \<or> fle upper_bound lower_bound) \<and>
   (samples_count \<le> 0 \<or> fle upper_bound lower_bound \<longrightarrow>
      estimate_integral_monte_carlo R f lower_bound upper_bound samples_count random_seed g =
        (Inl (if samples_count \<le> 0 then ValueError_samples_count else ValueError_bounds), g))"
proof (cases "samples_count \<le> 0 \<or> fle upper_bound lower_bound")
  case True
  then show ?thesis by (simp add: estimate_invalid)
next
  case False
  then have valid: "0 < samples_count" "\<not> fle upper_bound lower_bound" by simp_all
  have "list_all (\<lambda>p. returns_at (\<lambda>x. Inr (F x)) (fst p))
          (sample_points R lower_bound upper_bound (pymax (F lower_bound) (F upper_bound))
             (nat samples_count) (seed_state R random_seed))"
    by (simp add: returns_at_def list_all_iff)
  from estimate_returns [OF valid refl refl this, of g] False show ?thesis by simp
qed

text \<open>
  The counts \<open>0\<close> and \<open>-5\<close>, the bounds \<open>2, 2\<close> and \<open>2, 0\<close>: each raises and leaves the
  generator in the state \<open>(7, 5)\<close> it was in.
\<close>

theorem invalid_arguments_rejected_before_randomness_witness:
  "estimate_integral_monte_carlo (scripted_prng demo_script) integrand_function
     (Finite 0) (Finite 2) 0 42 (7, 5) = (Inl ValueError_samples_count, (7, 5)) \<and>
   estimate_integral_monte_carlo (scripted_prng demo_script) integrand_function
     (Finite 0) (Finite 2) (- 5) 42 (7, 5) = (Inl ValueError_samples_count, (7, 5)) \<and>
   estimate_integral_monte_carlo (scripted_prng demo_script) integrand_function
     (Finite 2) (Finite 2) 10 42 (7, 5) = (Inl ValueError_bounds, (7, 5)) \<and>
   estimate_integral_monte_carlo (scripted_prng demo_script) integrand_function
     (Finite 2) (Finite 0) 10 42 (7, 5) = (Inl ValueError_bounds, (7, 5))"
  using invalid_arguments_rejected_before_randomness
          [of "scripted_prng demo_script" "\<lambda>x. x" "Finite 0" "Finite 2" 0 42 "(7, 5)"
              integrand_function]
        invalid_arguments_rejected_before_randomness
          [of "scripted_prng demo_script" "\<lambda>x. x" "Finite 0" "Finite 2" "- 5" 42 "(7, 5)"
              integrand_function]
        invalid_arguments_rejected_before_randomness
          [of "scripted_prng demo_script" "\<lambda>x. x" "Finite 2" "Finite 2" 10 42 "(7, 5)"
              integrand_function]
        invalid_arguments_rejected_before_randomness
          [of "scripted_prng demo_script" "\<lambda>x. x" "Finite 2" "Finite 0" 10 42 "(7, 5)"
              integrand_function]
  by simp

text \<open>
  Claim C3 does not hold for every call with a positive count. A call whose bounds are
  not in order raises before the generator is touched; a valid call whose integrand
  raises at an end point has seeded the generator and drawn nothing; one whose integrand
  raises at its second point of three has made four draws, not six.
\<close>

theorem fewer_draws_than_twice_the_count:
  "estimate_integral_monte_carlo (scripted_prng demo_script) integrand_function
     (Finite 2) (Finite 0) 3 42 (7, 5) = (Inl ValueError_bounds, (7, 5)) \<and>
   estimate_integral_monte_carlo (scripted_prng demo_script) integrand_function
     (Finite 0) (Finite (2 ^ 600)) 1 42 (7, 5) = (Inl OverflowError, (42, 0)) \<and>
   estimate_integral_monte_carlo (scripted_prng demo_script) raising_integrand
     (Finite 0) (Finite 2) 3 42 (7, 5) = (Inl OverflowError, (42, 4)) \<and>
   (advance (scripted_prng demo_script) ^^ (2 * nat 1)) (seed_state (scripted_prng demo_script) 42)
     = (42, 2) \<and>
   (advance (scripted_prng demo_script) ^^ (2 * nat 3)) (seed_state (scripted_prng demo_script) 42)
     = (42, 6)"
proof -
  have 1: "estimate_integral_monte_carlo (scripted_prng demo_script) integrand_function
     (Finite 2) (Finite 0) 3 42 (7, 5) = (Inl ValueError_bounds, (7, 5))"
    by (simp add: estimate_integral_monte_carlo_def)
  have "integrand_function (Finite 0) = Inr (Finite 0)"
    using integrand_function_small [of 0] by simp
  moreover have "integrand_function (Finite (2 ^ 600)) = Inl OverflowError"
    by (simp add: integrand_function_def float_pow_def float_overflow_def)
  ultimately have 2: "estimate_integral_monte_carlo (scripted_prng demo_script)
     integrand_function (Finite 0) (Finite (2 ^ 600)) 1 42 (7, 5) = (Inl OverflowError, (42, 0))"
    by (simp add: estimate_integral_monte_carlo_def demo_seed)
  have 3: "estimate_integral_monte_carlo (scripted_prng demo_script) raising_integrand
     (Finite 0) (Finite 2) 3 42 (7, 5) = (Inl OverflowError, (42, 4))"
    by (simp add: estimate_integral_monte_carlo_def raising_integrand_def pymax_def
          eval_nat_numeral uniform_def scripted_prng_def demo_script_def fsub_def fround_small)
  from 1 2 3 show ?thesis
    by (simp add: demo_seed demo_advance)
qed

text \<open>
  Claim C3 as amended. A call with a positive count and \<open>lower_bound < upper_bound\<close> seeds
  the generator and leaves it two draws past the seeded state for every point it has
  drawn, at most \<open>samples_count\<close> points, and exactly \<open>samples_count\<close> points, that is
  \<open>2 * samples_count\<close> draws, when it returns an estimate. When the integrand returns at
  the two end points, the \<open>j\<close>-th point takes the numbers \<open>2j\<close> and \<open>2j + 1\<close> of the stream
  that starts at the seeded state: the first gives \<open>x\<close> by \<open>uniform(lower_bound,
  upper_bound)\<close>, the second gives \<open>y\<close> by \<open>uniform(0, height)\<close>; and a loop that meets no
  exception runs over all these points.
\<close>

theorem draws_of_a_valid_call:
  assumes "0 < samples_count" and "flt lower_bound upper_bound"
  shows "snd (estimate_integral_monte_carlo R f lower_bound upper_bound samples_count
                random_seed g) =
           (advance R ^^ (2 * points_drawn R f lower_bound upper_bound samples_count random_seed))
             (seed_state R random_seed) \<and>
         points_drawn R f lower_bound upper_bound samples_count random_seed \<le> nat samples_count \<and>
         ((\<exists>v. fst (estimate_integral_monte_carlo R f lower_bound upper_bound samples_count
                      random_seed g) = Inr v) \<longrightarrow>
            points_drawn R f lower_bound upper_bound samples_count random_seed =
              nat samples_count) \<and>
         (\<forall>f_lower f_upper.
            f lower_bound = Inr f_lower \<and> f upper_bound = Inr f_upper \<longrightarrow>
            (let g0 = seed_state R random_seed;
                 height = pymax f_lower f_upper;
                 points = sample_points R lower_bound upper_bound height (nat samples_count) g0
             in int (length points) = samples_count \<and>
                (\<forall>j < nat samples_count.
                   points ! j =
                     (fadd lower_bound
                        (fmul (fsub upper_bound lower_bound) (Finite (stream_at R g0 (2 * j)))),
                      fadd (Finite 0)
                        (fmul (fsub height (Finite 0)) (Finite (stream_at R g0 (2 * j + 1)))))) \<and>
                (list_all (\<lambda>p. returns_at f (fst p)) points \<longrightarrow>
                   sampling_loop R f lower_bound upper_bound height (nat samples_count) 0 g0 =
                     (Inr (length (filter (under_curve f) points)),
                      (advance R ^^ (2 * nat samples_count)) g0))))"
proof (intro conjI allI impI)
  from assms(2) have valid: "\<not> fle upper_bound lower_bound" by (rule flt_not_fle)
  show "snd (estimate_integral_monte_carlo R f lower_bound upper_bound samples_count
                random_seed g) =
           (advance R ^^ (2 * points_drawn R f lower_bound upper_bound samples_count random_seed))
             (seed_state R random_seed)"
    by (rule estimate_state [OF assms(1) valid])
  show "points_drawn R f lower_bound upper_bound samples_count random_seed \<le> nat samples_count"
    by (rule points_drawn_le)
  {
    assume "\<exists>v. fst (estimate_integral_monte_carlo R f lower_bound upper_bound samples_count
                      random_seed g) = Inr v"
    then obtain v where v: "fst (estimate_integral_monte_carlo R f lower_bound upper_bound
                                   samples_count random_seed g) = Inr v"
      by blast
    have ends: "returns_at f lower_bound \<and> returns_at f upper_bound"
    proof (rule ccontr)
      assume "\<not> (returns_at f lower_bound \<and> returns_at f upper_bound)"
      from estimate_raises_at_end_point [OF assms(1) valid this, of R random_seed g] v
      show False by auto
    qed
    then obtain a b where ab: "f lower_bound = Inr a" "f upper_bound = Inr b"
      by (auto simp: returns_at_def split: sum.splits)
    have pts: "list_all (\<lambda>p. returns_at f (fst p))
                 (sample_points R lower_bound upper_bound (pymax a b)
                    (nat samples_count) (seed_state R random_seed))"
    proof (rule ccontr)
      assume "\<not> list_all (\<lambda>p. returns_at f (fst p))
                 (sample_points R lower_bound upper_bound (pymax a b)
                    (nat samples_count) (seed_state R random_seed))"
      from estimate_raises_at_point [OF assms(1) valid ab this, of g] v
      show False by simp
    qed
    from points_drawn_all [OF ab pts]
    show "points_drawn R f lower_bound upper_bound samples_count random_seed =
            nat samples_count" .
  }
  {
    fix f_lower f_upper
    let ?g0 = "seed_state R random_seed"
    let ?h = "pymax f_lower f_upper"
    let ?pts = "sample_points R lower_bound upper_bound ?h (nat samples_count) ?g0"
    from assms(1) have len: "int (length ?pts) = samples_count"
      by (simp add: length_sample_points)
    have nth: "\<forall>j < nat samples_count.
        ?pts ! j =
          (fadd lower_bound
             (fmul (fsub upper_bound lower_bound) (Finite (stream_at R ?g0 (2 * j)))),
           fadd (Finite 0) (fmul (fsub ?h (Finite 0)) (Finite (stream_at R ?g0 (2 * j + 1)))))"
      using nth_sample_points [of _ "nat samples_count" R lower_bound upper_bound ?h ?g0]
      by blast
    have loop: "list_all (\<lambda>p. returns_at f (fst p)) ?pts \<longrightarrow>
        sampling_loop R f lower_bound upper_bound ?h (nat samples_count) 0 ?g0 =
          (Inr (length (filter (under_curve f) ?pts)), (advance R ^^ (2 * nat samples_count)) ?g0)"
      using sampling_loop_returns [of f R lower_bound upper_bound ?h "nat samples_count" ?g0 0]
      by simp
    from len nth loop
    show "let g0 = seed_state R random_seed;
              height = pymax f_lower f_upper;
              points = sample_points R lower_bound upper_bound height (nat samples_count) g0
          in int (length points) = samples_count \<and>
             (\<forall>j < nat samples_count.
                points ! j =
                  (fadd lower_bound
                     (fmul (fsub upper_bound lower_bound) (Finite (stream_at R g0 (2 * j)))),
                   fadd (Finite 0)
                     (fmul (fsub height (Finite 0)) (Finite (stream_at R g0 (2 * j + 1)))))) \<and>
             (list_all (\<lambda>p. returns_at f (fst p)) points \<longrightarrow>
                sampling_loop R f lower_bound upper_bound height (nat samples_count) 0 g0 =
                  (Inr (length (filter (under_curve f) points)),
                   (advance R ^^ (2 * nat samples_count)) g0))"
      unfolding Let_def by (intro conjI)
  }
qed

text \<open>
  The integrand that raises between \<open>1\<close> and \<open>2\<close>, on \<open>[0, 2]\<close> with three points: the
  second point has \<open>x = 3/2\<close>, two points are drawn, and the generator is left four draws
  past the seed. \<open>x\<^sup>2\<close> on the same interval returns after all three points, six draws
  past the seed.
\<close>

theorem draws_of_a_valid_call_witness:
  "(0::int) < 3 \<and> flt (Finite 0) (Finite 2) \<and>
   points_drawn (scripted_prng demo_script) raising_integrand (Finite 0) (Finite 2) 3 42 = 2 \<and>
   snd (estimate_integral_monte_carlo (scripted_prng demo_script) raising_integrand
          (Finite 0) (Finite 2) 3 42 (7, 5)) = (42, 4) \<and>
   fst (estimate_integral_monte_carlo (scripted_prng demo_script) integrand_function
          (Finite 0) (Finite 2) 3 42 (7, 5)) = Inr (Finite (2 / 3 * (2 * 4))) \<and>
   points_drawn (scripted_prng demo_script) integrand_function (Finite 0) (Finite 2) 3 42 = 3 \<and>
   snd (estimate_integral_monte_carlo (scripted_prng demo_script) integrand_function
          (Finite 0) (Finite 2) 3 42 (7, 5)) = (42, 6)"
proof -
  let ?R = "scripted_prng demo_script"
  have ends: "raising_integrand (Finite 0) = Inr (Finite 0)"
    "raising_integrand (Finite 2) = Inr (Finite 2)"
    by (simp_all add: raising_integrand_def)
  have "takeWhile (\<lambda>p. returns_at raising_integrand (fst p))
          [(Finite 1, Finite (1 / 2)), (Finite (3 / 2), Finite 1), (Finite 1, Finite 1)] =
        [(Finite 1, Finite (1 / 2))]"
    by (simp add: returns_at_def raising_integrand_def)
  with ends have drawn: "points_drawn ?R raising_integrand (Finite 0) (Finite 2) 3 42 = 2"
    by (simp add: points_drawn_def pymax_def demo_seed demo_points_2)
  have est: "fst (estimate_integral_monte_carlo ?R integrand_function
                    (Finite 0) (Finite 2) 3 42 (7, 5)) = Inr (Finite (2 / 3 * (2 * 4)))"
    by (simp add: demo_estimate)
  from draws_of_a_valid_call [of 3 "Finite 0" "Finite 2" ?R raising_integrand 42 "(7, 5)"]
    drawn
  have 1: "snd (estimate_integral_monte_carlo ?R raising_integrand
                  (Finite 0) (Finite 2) 3 42 (7, 5)) = (42, 4)"
    by (simp add: demo_seed demo_advance)
  from draws_of_a_valid_call [of 3 "Finite 0" "Finite 2" ?R integrand_function 42 "(7, 5)"]
    est
  have 2: "points_drawn ?R integrand_function (Finite 0) (Finite 2) 3 42 = 3"
    and 3: "snd (estimate_integral_monte_carlo ?R integrand_function
                   (Finite 0) (Finite 2) 3 42 (7, 5)) = (42, 6)"
    by (simp_all add: demo_seed demo_advance)
  from drawn est 1 2 3 show ?thesis by simp
qed

text \<open>
  Claim C4. In a loop that returns, every sample is classified with the inclusive
  comparison: the counter after the first \<open>j + 1\<close> points is the counter after the first
  \<open>j\<close> points, plus one if and only if the \<open>j\<close>-th point \<open>(x, y)\<close> has \<open>y \<le> f x\<close>. In
  particular a point with \<open>y\<close> equal to \<open>f x\<close> is counted. The counter at the end is the
  number of points with \<open>y \<le> f x\<close>, added to the counter at the start.
\<close>

theorem every_sample_classified_inclusively:
  assumes "j < k" and "sampling_loop R f lo hi h k c g = (Inr c', g')"
  shows "\<exists>cj fx.
           fst (sampling_loop R f lo hi h j c g) = Inr cj \<and>
           f (fst (sample_points R lo hi h k g ! j)) = Inr fx \<and>
           fst (sampling_loop R f lo hi h (Suc j) c g) =
             Inr (if fle (snd (sample_points R lo hi h k g ! j)) fx then cj + 1 else cj) \<and>
           (feq (snd (sample_points R lo hi h k g ! j)) fx \<longrightarrow>
              fst (sampling_loop R f lo hi h (Suc j) c g) = Inr (cj + 1)) \<and>
           c' = c + length (filter (under_curve f) (sample_points R lo hi h k g))"
proof -
  let ?ok = "\<lambda>p. returns_at f (fst p)"
  let ?pts = "sample_points R lo hi h k g"
  have all: "list_all ?ok ?pts"
  proof (rule ccontr)
    assume "\<not> list_all ?ok ?pts"
    from sampling_loop_raises [OF this, of c] assms(2) show False by simp
  qed
  from sampling_loop_returns [OF all, of c] assms(2)
  have total: "c' = c + length (filter (under_curve f) ?pts)" by simp
  from assms(1) have pj: "?pts ! j \<in> set ?pts"
    by (simp add: length_sample_points)
  with all have "returns_at f (fst (?pts ! j))"
    by (simp add: list_all_iff)
  then obtain fx where fx: "f (fst (?pts ! j)) = Inr fx"
    by (auto simp: returns_at_def split: sum.splits)
  from assms(1) have tj: "take j ?pts = sample_points R lo hi h j g"
    and tsj: "take (Suc j) ?pts = sample_points R lo hi h (Suc j) g"
    by (simp_all add: take_sample_points)
  from all have "list_all ?ok (take j ?pts)" "list_all ?ok (take (Suc j) ?pts)"
    by (auto simp: list_all_iff dest: in_set_takeD)
  with tj tsj have okj: "list_all ?ok (sample_points R lo hi h j g)"
    and oksj: "list_all ?ok (sample_points R lo hi h (Suc j) g)"
    by simp_all
  let ?cj = "c + length (filter (under_curve f) (sample_points R lo hi h j g))"
  from sampling_loop_returns [OF okj, of c]
  have cj: "fst (sampling_loop R f lo hi h j c g) = Inr ?cj" by simp
  from assms(1) have "take (Suc j) ?pts = take j ?pts @ [?pts ! j]"
    by (simp add: take_Suc_conv_app_nth length_sample_points)
  with tj tsj have split: "sample_points R lo hi h (Suc j) g =
                             sample_points R lo hi h j g @ [?pts ! j]"
    by simp
  from fx have uc: "under_curve f (?pts ! j) \<longleftrightarrow> fle (snd (?pts ! j)) fx"
    by (simp add: under_curve_def)
  from sampling_loop_returns [OF oksj, of c]
  have "fst (sampling_loop R f lo hi h (Suc j) c g) =
          Inr (c + length (filter (under_curve f) (sample_points R lo hi h (Suc j) g)))"
    by simp
  with split uc
  have csj: "fst (sampling_loop R f lo hi h (Suc j) c g) =
               Inr (if fle (snd (?pts ! j)) fx then ?cj + 1 else ?cj)"
    by simp
  have eq: "feq (snd (?pts ! j)) fx \<longrightarrow>
              fst (sampling_loop R f lo hi h (Suc j) c g) = Inr (?cj + 1)"
  proof
    assume "feq (snd (?pts ! j)) fx"
    then have "fle (snd (?pts ! j)) fx"
      by (auto simp: feq_def intro: fle_refl)
    with csj show "fst (sampling_loop R f lo hi h (Suc j) c g) = Inr (?cj + 1)" by simp
  qed
  from cj fx csj eq total show ?thesis by blast
qed

text \<open>
  \<open>x\<^sup>2\<close> on \<open>[0, 2]\<close> under the height \<open>4\<close>, three points: the first is \<open>(1, 1)\<close>, on the
  curve, and takes the counter from \<open>0\<close> to \<open>1\<close>; the loop ends with \<open>2\<close>.
\<close>

theorem every_sample_classified_inclusively_witness:
  "(0::nat) < 3 \<and>
   sampling_loop (scripted_prng demo_script) integrand_function (Finite 0) (Finite 2) (Finite 4)
     3 0 (42, 0) = (Inr 2, (42, 6)) \<and>
   sample_points (scripted_prng demo_script) (Finite 0) (Finite 2) (Finite 4) 3 (42, 0) ! 0 =
     (Finite 1, Finite 1) \<and>
   integrand_function (Finite 1) = Inr (Finite 1) \<and>
   feq (Finite 1) (Finite 1) \<and>
   fst (sampling_loop (scripted_prng demo_script) integrand_function (Finite 0) (Finite 2)
          (Finite 4) (Suc 0) 0 (42, 0)) = Inr 1"
proof -
  let ?R = "scripted_prng demo_script"
  have sq: "integrand_function (Finite 1) = Inr (Finite 1)"
    by (rule demo_integrand_values)
  have all: "list_all (\<lambda>p. returns_at integrand_function (fst p))
               (sample_points ?R (Finite 0) (Finite 2) (Finite 4) 3 (42, 0))"
    by (simp add: demo_points_4 returns_at_def demo_integrand_values)
  from sampling_loop_returns [OF all, of 0]
  have loop: "sampling_loop ?R integrand_function (Finite 0) (Finite 2) (Finite 4) 3 0 (42, 0) =
                (Inr 2, (42, 6))"
    by (simp add: demo_points_4 demo_advance under_curve_def demo_integrand_values)
  have p0: "sample_points ?R (Finite 0) (Finite 2) (Finite 4) 3 (42, 0) ! 0 = (Finite 1, Finite 1)"
    by (simp add: demo_points_4)
  have e: "feq (Finite 1) (Finite 1)" by (simp add: feq_def)
  from every_sample_classified_inclusively [OF _ loop, of 0] p0 sq e
  have "fst (sampling_loop ?R integrand_function (Finite 0) (Finite 2) (Finite 4) (Suc 0) 0
               (42, 0)) = Inr 1"
    by auto
  with loop p0 sq e show ?thesis by simp
qed

text \<open>
  Claim C5. The outcome of a call (the estimate, or the exception) is the same whatever
  state the global generator was in when the call started: two calls with the same
  arguments return the same estimate, whatever happened between them.
\<close>

theorem estimate_independent_of_incoming_state:
  "fst (estimate_integral_monte_carlo R f lower_bound upper_bound samples_count random_seed g1) =
   fst (estimate_integral_monte_carlo R f lower_bound upper_bound samples_count random_seed g2)"
  by (simp add: estimate_integral_monte_carlo_def Let_def split: sum.splits prod.splits)

text \<open>
  Claim C6 does not hold. The call seeds and draws from the process-wide generator of the
  module \<open>random\<close>, and leaves it changed. Here the generator is in the state \<open>(7, 5)\<close>
  before a call with one point and seed \<open>42\<close>, and in another state after it; the next
  number a later user of \<open>random\<close> draws is not the one it would have drawn before the
  call.
\<close>

theorem global_generator_changed_by_call:
  "snd (estimate_integral_monte_carlo (scripted_prng demo_script) integrand_function
          (Finite 0) (Finite 2) 1 42 (7, 5)) \<noteq> (7, 5) \<and>
   fst (random_draw (scripted_prng demo_script)
         (snd (estimate_integral_monte_carlo (scripted_prng demo_script) integrand_function
                 (Finite 0) (Finite 2) 1 42 (7, 5))))
     \<noteq> fst (random_draw (scripted_prng demo_script) (7, 5))"
  unfolding demo_estimate_one
  by (simp add: scripted_prng_def demo_script_def)

text \<open>
  Claim C6 as amended. A valid call does not read the incoming state of the global
  generator: it overwrites it with the seeded state, so the whole result is the same for
  any two incoming states. It leaves the global generator in the seeded state advanced by
  two draws for every point drawn: by at most \<open>2 * samples_count\<close> draws, and by exactly
  \<open>2 * samples_count\<close> draws when it returns an estimate.
\<close>

theorem global_generator_reseeded_and_advanced:
  assumes "0 < samples_count" and "flt lower_bound upper_bound"
  shows "estimate_integral_monte_carlo R f lower_bound upper_bound samples_count random_seed g =
         estimate_integral_monte_carlo R f lower_bound upper_bound samples_count random_seed g' \<and>
         snd (estimate_integral_monte_carlo R f lower_bound upper_bound samples_count
                random_seed g) =
           (advance R ^^ (2 * points_drawn R f lower_bound upper_bound samples_count random_seed))
             (seed_state R random_seed) \<and>
         points_drawn R f lower_bound upper_bound samples_count random_seed \<le> nat samples_count \<and>
         ((\<exists>v. fst (estimate_integral_monte_carlo R f lower_bound upper_bound samples_count
                      random_seed g) = Inr v) \<longrightarrow>
            snd (estimate_integral_monte_carlo R f lower_bound upper_bound samples_count
                   random_seed g) =
              (advance R ^^ (2 * nat samples_count)) (seed_state R random_seed))"
proof (intro conjI impI)
  from assms(2) have valid: "\<not> fle upper_bound lower_bound" by (rule flt_not_fle)
  from assms(1) valid
  show "estimate_integral_monte_carlo R f lower_bound upper_bound samples_count random_seed g =
        estimate_integral_monte_carlo R f lower_bound upper_bound samples_count random_seed g'"
    by (simp add: estimate_integral_monte_carlo_def)
  show "snd (estimate_integral_monte_carlo R f lower_bound upper_bound samples_count
               random_seed g) =
          (advance R ^^ (2 * points_drawn R f lower_bound upper_bound samples_count random_seed))
            (seed_state R random_seed)"
    by (rule estimate_state [OF assms(1) valid])
  show "points_drawn R f lower_bound upper_bound samples_count random_seed \<le> nat samples_count"
    by (rule points_drawn_le)
  assume "\<exists>v. fst (estimate_integral_monte_carlo R f lower_bound upper_bound samples_count
                    random_seed g) = Inr v"
  then obtain v where v: "fst (estimate_integral_monte_carlo R f lower_bound upper_bound
                                 samples_count random_seed g) = Inr v"
    by blast
  have ends: "returns_at f lower_bound \<and> returns_at f upper_bound"
  proof (rule ccontr)
    assume "\<not> (returns_at f lower_bound \<and> returns_at f upper_bound)"
    from estimate_raises_at_end_point [OF assms(1) valid this, of R random_seed g] v
    show False by auto
  qed
  then obtain a b where ab: "f lower_bound = Inr a" "f upper_bound = Inr b"
    by (auto simp: returns_at_def split: sum.splits)
  have pts: "list_all (\<lambda>p. returns_at f (fst p))
               (sample_points R lower_bound upper_bound (pymax a b)
                  (nat samples_count) (seed_state R random_seed))"
  proof (rule ccontr)
    assume "\<not> list_all (\<lambda>p. returns_at f (fst p))
               (sample_points R lower_bound upper_bound (pymax a b)
                  (nat samples_count) (seed_state R random_seed))"
    from estimate_raises_at_point [OF assms(1) valid ab this, of g] v
    show False by simp
  qed
  from estimate_returns [OF assms(1) valid ab pts, of g]
  show "snd (estimate_integral_monte_carlo R f lower_bound upper_bound samples_count
               random_seed g) =
          (advance R ^^ (2 * nat samples_count)) (seed_state R random_seed)"
    by simp
qed

text \<open>
  Three points of \<open>x\<^sup>2\<close> with seed \<open>42\<close>: the call returns, from the state \<open>(7, 5)\<close> as from
  the state \<open>(0, 0)\<close>, and the generator is left at \<open>(42, 6)\<close>.
\<close>

theorem global_generator_reseeded_and_advanced_witness:
  "(0::int) < 3 \<and> flt (Finite 0) (Finite 2) \<and>
   estimate_integral_monte_carlo (scripted_prng demo_script) integrand_function
     (Finite 0) (Finite 2) 3 42 (7, 5) =
   estimate_integral_monte_carlo (scripted_prng demo_script) integrand_function
     (Finite 0) (Finite 2) 3 42 (0, 0) \<and>
   (\<exists>v. fst (estimate_integral_monte_carlo (scripted_prng demo_script) integrand_function
               (Finite 0) (Finite 2) 3 42 (7, 5)) = Inr v) \<and>
   snd (estimate_integral_monte_carlo (scripted_prng demo_script) integrand_function
          (Finite 0) (Finite 2) 3 42 (7, 5)) = (42, 6)"
proof -
  let ?R = "scripted_prng demo_script"
  have valid: "(0::int) < 3" "flt (Finite 0) (Finite 2)" by simp_all
  have r: "\<exists>v. fst (estimate_integral_monte_carlo ?R integrand_function
                      (Finite 0) (Finite 2) 3 42 (7, 5)) = Inr v"
    by (simp add: demo_estimate)
  note t = global_generator_reseeded_and_advanced
             [OF valid, of ?R integrand_function 42 "(7, 5)" "(0, 0)"]
  from t have same: "estimate_integral_monte_carlo ?R integrand_function
                       (Finite 0) (Finite 2) 3 42 (7, 5) =
                     estimate_integral_monte_carlo ?R integrand_function
                       (Finite 0) (Finite 2) 3 42 (0, 0)"
    by (rule conjunct1)
  from t r have "snd (estimate_integral_monte_carlo ?R integrand_function
                        (Finite 0) (Finite 2) 3 42 (7, 5)) =
                 (advance ?R ^^ (2 * nat 3)) (seed_state ?R 42)"
    by blast
  then have final: "snd (estimate_integral_monte_carlo ?R integrand_function
                           (Finite 0) (Finite 2) 3 42 (7, 5)) = (42, 6)"
    by (simp add: demo_seed demo_advance)
  from valid same r final show ?thesis by (intro conjI)
qed

subsection \<open>The demonstration of main\<close>

text \<open>
  \<open>main\<close> integrates \<open>x\<^sup>2\<close> over \<open>[0, 2]\<close>. With a generator that keeps to \<open>[0, 1)\<close> every
  abscissa drawn is a finite number of \<open>[0, 2]\<close>, where the integrand does not overflow, so
  the estimator returns.
\<close>

lemma main_abscissa:
  assumes "unit_range R" and p: "p \<in> set (sample_points R (Finite 0) (Finite 2) h k g)"
  shows "\<exists>x. fst p = Finite x \<and> \<bar>x\<bar> \<le> 2"
proof -
  from p obtain j where j: "j < k" and pj: "p = sample_points R (Finite 0) (Finite 2) h k g ! j"
    by (auto simp: in_set_conv_nth length_sample_points)
  let ?u = "stream_at R g (2 * j)"
  from stream_at_unit [OF assms(1), of g "2 * j"] have u: "0 \<le> ?u" "?u < 1" by simp_all
  then have "\<bar>2 * ?u\<bar> \<le> 8" by simp
  then have "fround (2 * ?u) = Finite (2 * ?u)" by (rule fround_small)
  with j pj have "fst p = Finite (2 * ?u)"
    by (simp add: nth_sample_points fsub_def fround_small)
  moreover from u have "\<bar>2 * ?u\<bar> \<le> 2" by simp
  ultimately show ?thesis by blast
qed

lemma main_estimate_returns:
  assumes "unit_range R"
  shows "\<exists>mc. estimate_integral_monte_carlo R integrand_function (Finite 0) (Finite 2) 200000 42 g =
           (Inr mc, (advance R ^^ 400000) (seed_state R 42))"
proof -
  have pts: "list_all (\<lambda>p. returns_at integrand_function (fst p))
               (sample_points R (Finite 0) (Finite 2) (pymax (Finite 0) (Finite 4)) (nat 200000)
                  (seed_state R 42))"
    unfolding list_all_iff
  proof
    fix p
    assume "p \<in> set (sample_points R (Finite 0) (Finite 2) (pymax (Finite 0) (Finite 4))
                       (nat 200000) (seed_state R 42))"
    from main_abscissa [OF assms this] obtain x where "fst p = Finite x" "\<bar>x\<bar> \<le> 2"
      by blast
    with integrand_function_small [of x] show "returns_at integrand_function (fst p)"
      by (simp add: returns_at_def)
  qed
  have "(0::int) < 200000" "\<not> fle (Finite 2) (Finite 0)" by simp_all
  from estimate_returns [OF this demo_integrand_values(1) demo_integrand_values(4) pts, of g]
  show ?thesis by simp
qed

lemma analytic_0_2: "analytic_integral_x_squared (Finite 0) (Finite 2) = Inr (Finite (8 / 3))"
proof -
  have "float_pow (Finite 2) 3 = Inr (Finite 8)" "float_pow (Finite 0) 3 = Inr (Finite 0)"
    using float_overflow_gt_8 by (simp_all add: float_pow_def)
  then show ?thesis
    by (simp add: analytic_integral_x_squared_def fsub_def fround_small)
qed

subsection \<open>The claims about the references\<close>

text \<open>
  Claim C7 does not hold in its last part. With SciPy loaded, \<open>try_quad_integration\<close>
  returns a pair only when \<open>quad\<close> returns one: an exception of \<open>quad\<close> is not caught. The
  midpoint rule on \<open>[0, 2^600]\<close> evaluates \<open>x\<^sup>2\<close> at \<open>2^599\<close>, which overflows, and the
  function raises \<open>OverflowError\<close>: neither a pair nor the signal of a missing SciPy.
\<close>

theorem quadrature_exception_not_caught:
  "try_quad_integration (Some midpoint_quad) integrand_function (Finite 0) (Finite (2 ^ 600)) =
     Inl OverflowError"
  by (simp add: try_quad_integration_def midpoint_quad_def integrand_function_def float_pow_def
        fround_def float_overflow_def)

text \<open>
  Claim C7 as amended. When the import of SciPy fails, \<open>try_quad_integration\<close> returns
  \<open>None\<close>, a value and not an exception, and \<open>main\<close>, with a generator that keeps to
  \<open>[0, 1)\<close>, does not raise: it prints its four lines and the notice that SciPy is not
  installed, and returns. When SciPy loads, \<open>try_quad_integration\<close> returns the pair that
  \<open>quad\<close> returns and raises what \<open>quad\<close> raises; \<open>main\<close> then prints the three lines of
  the check after its four lines when \<open>quad\<close> returns, and ends with the exception of
  \<open>quad\<close> after its four lines when \<open>quad\<close> raises.
\<close>

theorem quadrature_check_outcomes:
  "try_quad_integration None f lower_bound upper_bound = Inr None \<and>
   try_quad_integration (Some quad) f lower_bound upper_bound =
     (case quad f lower_bound upper_bound of
        Inl e \<Rightarrow> Inl e
      | Inr pair \<Rightarrow> Inr (Some pair)) \<and>
   (unit_range R \<longrightarrow>
     (\<exists>mc g'.
        estimate_integral_monte_carlo R integrand_function (Finite 0) (Finite 2) 200000 42 g =
          (Inr mc, g') \<and>
        main R None g =
          (([Title, MonteCarlo 200000 mc, Analytic (Finite (8 / 3)),
             AbsDifference (fabs (fsub mc (Finite (8 / 3)))), SciPyMissing], None), g') \<and>
        (\<forall>qr qe.
           quad integrand_function (Finite 0) (Finite 2) = Inr (qr, qe) \<longrightarrow>
           main R (Some quad) g =
             (([Title, MonteCarlo 200000 mc, Analytic (Finite (8 / 3)),
                AbsDifference (fabs (fsub mc (Finite (8 / 3)))),
                QuadTitle, Quad qr qe, MCQuadDifference (fabs (fsub mc qr))], None), g')) \<and>
        (\<forall>e.
           quad integrand_function (Finite 0) (Finite 2) = Inl e \<longrightarrow>
           main R (Some quad) g =
             (([Title, MonteCarlo 200000 mc, Analytic (Finite (8 / 3)),
                AbsDifference (fabs (fsub mc (Finite (8 / 3))))], Some e), g'))))"
proof (intro conjI impI)
  show "try_quad_integration None f lower_bound upper_bound = Inr None"
    by (simp add: try_quad_integration_def)
  show "try_quad_integration (Some quad) f lower_bound upper_bound =
          (case quad f lower_bound upper_bound of
             Inl e \<Rightarrow> Inl e
           | Inr pair \<Rightarrow> Inr (Some pair))"
    by (simp add: try_quad_integration_def split: sum.splits prod.splits)
next
  assume "unit_range R"
  from main_estimate_returns [OF this, of g] obtain mc where
    mc: "estimate_integral_monte_carlo R integrand_function (Finite 0) (Finite 2) 200000 42 g =
           (Inr mc, (advance R ^^ 400000) (seed_state R 42))"
    by blast
  let ?g' = "(advance R ^^ 400000) (seed_state R 42)"
  have none: "main R None g =
          (([Title, MonteCarlo 200000 mc, Analytic (Finite (8 / 3)),
             AbsDifference (fabs (fsub mc (Finite (8 / 3)))), SciPyMissing], None), ?g')"
    by (simp add: main_def mc analytic_0_2 try_quad_integration_def)
  have some: "\<forall>qr qe.
           quad integrand_function (Finite 0) (Finite 2) = Inr (qr, qe) \<longrightarrow>
           main R (Some quad) g =
             (([Title, MonteCarlo 200000 mc, Analytic (Finite (8 / 3)),
                AbsDifference (fabs (fsub mc (Finite (8 / 3)))),
                QuadTitle, Quad qr qe, MCQuadDifference (fabs (fsub mc qr))], None), ?g')"
    by (simp add: main_def mc analytic_0_2 try_quad_integration_def)
  have raise: "\<forall>e.
           quad integrand_function (Finite 0) (Finite 2) = Inl e \<longrightarrow>
           main R (Some quad) g =
             (([Title, MonteCarlo 200000 mc, Analytic (Finite (8 / 3)),
                AbsDifference (fabs (fsub mc (Finite (8 / 3))))], Some e), ?g')"
    by (simp add: main_def mc analytic_0_2 try_quad_integration_def)
  from mc none some raise
  show "\<exists>mc g'.
        estimate_integral_monte_carlo R integrand_function (Finite 0) (Finite 2) 200000 42 g =
          (Inr mc, g') \<and>
        main R None g =
          (([Title, MonteCarlo 200000 mc, Analytic (Finite (8 / 3)),
             AbsDifference (fabs (fsub mc (Finite (8 / 3)))), SciPyMissing], None), g') \<and>
        (\<forall>qr qe.
           quad integrand_function (Finite 0) (Finite 2) = Inr (qr, qe) \<longrightarrow>
           main R (Some quad) g =
             (([Title, MonteCarlo 200000 mc, Analytic (Finite (8 / 3)),
                AbsDifference (fabs (fsub mc (Finite (8 / 3)))),
                QuadTitle, Quad qr qe, MCQuadDifference (fabs (fsub mc qr))], None), g')) \<and>
        (\<forall>e.
           quad integrand_function (Finite 0) (Finite 2) = Inl e \<longrightarrow>
           main R (Some quad) g =
             (([Title, MonteCarlo 200000 mc, Analytic (Finite (8 / 3)),
                AbsDifference (fabs (fsub mc (Finite (8 / 3))))], Some e), g'))"
    by blast
qed

text \<open>
  \<open>main\<close> on the scripted generator: without SciPy it ends with the notice; with the
  midpoint rule, which gives \<open>2\<close> for \<open>x\<^sup>2\<close> on \<open>[0, 2]\<close>, it ends with the lines of the
  check.
\<close>

theorem quadrature_check_outcomes_witness:
  "unit_range (scripted_prng demo_script) \<and>
   try_quad_integration None integrand_function (Finite 0) (Finite 2) = Inr None \<and>
   midpoint_quad integrand_function (Finite 0) (Finite 2) = Inr (Finite 2, Finite 0) \<and>
   try_quad_integration (Some midpoint_quad) integrand_function (Finite 0) (Finite 2) =
     Inr (Some (Finite 2, Finite 0)) \<and>
   (\<exists>mc g'.
      main (scripted_prng demo_script) None (7, 5) =
        (([Title, MonteCarlo 200000 mc, Analytic (Finite (8 / 3)),
           AbsDifference (fabs (fsub mc (Finite (8 / 3)))), SciPyMissing], None), g') \<and>
      main (scripted_prng demo_script) (Some midpoint_quad) (7, 5) =
        (([Title, MonteCarlo 200000 mc, Analytic (Finite (8 / 3)),
           AbsDifference (fabs (fsub mc (Finite (8 / 3)))),
           QuadTitle, Quad (Finite 2) (Finite 0),
           MCQuadDifference (fabs (fsub mc (Finite 2)))], None), g'))"
proof -
  have q: "midpoint_quad integrand_function (Finite 0) (Finite 2) = Inr (Finite 2, Finite 0)"
    by (simp add: midpoint_quad_def fsub_def fround_small demo_integrand_values)
  note t = quadrature_check_outcomes
             [of integrand_function "Finite 0" "Finite 2" midpoint_quad "scripted_prng demo_script"
                 "(7, 5)"]
  from t have n: "try_quad_integration None integrand_function (Finite 0) (Finite 2) = Inr None"
    by (rule conjunct1)
  from t q have s: "try_quad_integration (Some midpoint_quad) integrand_function (Finite 0)
                      (Finite 2) = Inr (Some (Finite 2, Finite 0))"
    by simp
  from t unit_range_demo q
  have m: "\<exists>mc g'.
      main (scripted_prng demo_script) None (7, 5) =
        (([Title, MonteCarlo 200000 mc, Analytic (Finite (8 / 3)),
           AbsDifference (fabs (fsub mc (Finite (8 / 3)))), SciPyMissing], None), g') \<and>
      main (scripted_prng demo_script) (Some midpoint_quad) (7, 5) =
        (([Title, MonteCarlo 200000 mc, Analytic (Finite (8 / 3)),
           AbsDifference (fabs (fsub mc (Finite (8 / 3)))),
           QuadTitle, Quad (Finite 2) (Finite 0),
           MCQuadDifference (fabs (fsub mc (Finite 2)))], None), g')"
    by blast
  from unit_range_demo n q s m show ?thesis by (intro conjI)
qed

text \<open>
  Claim C8 does not hold for every finite pair of bounds. \<open>2.0 ** 400\<close> is a finite double;
  its cube \<open>2^1200\<close> is beyond the range of a double, \<open>upper_bound ** 3\<close> raises
  \<open>OverflowError\<close>, and so does the function.
\<close>

theorem analytic_integral_overflows:
  "analytic_integral_x_squared (Finite 0) (Finite (2 ^ 400)) = Inl OverflowError"
  by (simp add: analytic_integral_x_squared_def float_pow_def float_overflow_def)

text \<open>
  Claim C8 as amended. The function depends on its two arguments only. For finite bounds
  it raises \<open>OverflowError\<close> when one of the two cubes is beyond the range of a double.
  Otherwise it returns: \<open>(upper_bound\<^sup>3 - lower_bound\<^sup>3) / 3\<close> when the difference of the
  cubes is within the range of a double, and an infinity when that difference overflows.
\<close>

theorem analytic_integral_outcomes:
  "analytic_integral_x_squared (Finite lower_bound) (Finite upper_bound) =
     (if float_overflow \<le> \<bar>upper_bound ^ 3\<bar> \<or> float_overflow \<le> \<bar>lower_bound ^ 3\<bar>
        then Inl OverflowError
      else if float_overflow \<le> upper_bound ^ 3 - lower_bound ^ 3 then Inr PInf
      else if upper_bound ^ 3 - lower_bound ^ 3 \<le> - float_overflow then Inr NInf
      else Inr (Finite ((upper_bound ^ 3 - lower_bound ^ 3) / 3)))"
proof -
  let ?d = "upper_bound ^ 3 - lower_bound ^ 3"
  have third: "fround (?d / 3) = Finite (?d / 3)"
    if "\<not> float_overflow \<le> ?d" "\<not> ?d \<le> - float_overflow"
    using that by (rule fround_third)
  show ?thesis
    by (simp add: analytic_integral_x_squared_def float_pow_def fsub_def fround_def [of ?d]
          inf_times_def third)
qed

text \<open>
  The bounds \<open>0, 2\<close> give \<open>8/3\<close>. The bounds \<open>-2^341, 2^341\<close> have their cubes \<open>-2^1023\<close> and
  \<open>2^1023\<close> within the range, but not the difference \<open>2^1024\<close>: the result is infinite. The
  lower bound \<open>2^400\<close> raises.
\<close>

theorem analytic_integral_outcomes_witness:
  "analytic_integral_x_squared (Finite 0) (Finite 2) = Inr (Finite (8 / 3)) \<and>
   analytic_integral_x_squared (Finite (- (2 ^ 341))) (Finite (2 ^ 341)) = Inr PInf \<and>
   analytic_integral_x_squared (Finite (2 ^ 400)) (Finite 0) = Inl OverflowError"
proof -
  have 1: "analytic_integral_x_squared (Finite 0) (Finite 2) = Inr (Finite (8 / 3))"
    using analytic_integral_outcomes [of 0 2]
    by (simp add: float_overflow_def)
  have 2: "analytic_integral_x_squared (Finite (- (2 ^ 341))) (Finite (2 ^ 341)) = Inr PInf"
    using analytic_integral_outcomes [of "- (2 ^ 341)" "2 ^ 341"]
    by (simp add: float_overflow_def)
  have 3: "analytic_integral_x_squared (Finite (2 ^ 400)) (Finite 0) = Inl OverflowError"
    using analytic_integral_outcomes [of "2 ^ 400" 0]
    by (simp add: float_overflow_def)
  from 1 2 3 show ?thesis by (intro conjI)
qed

subsection \<open>The range of the estimate\<close>

text \<open>
  Claim C10 does not hold for every valid call with a height that is not negative.
  \<open>x\<^sup>2\<close> on \<open>[0, 2^400]\<close> has the height \<open>2^800\<close>, a finite double; the area
  \<open>2^400 * 2^800\<close> overflows to infinity. With one point, which the script for the seed
  \<open>0\<close> puts above the curve, the ratio is \<open>0\<close> and the estimate \<open>0 * inf\<close> is NaN, which is
  in no interval.
\<close>

theorem estimate_nan_when_area_overflows:
  "integrand_function (Finite 0) = Inr (Finite 0) \<and>
   integrand_function (Finite (2 ^ 400)) = Inr (Finite (2 ^ 800)) \<and>
   fle (Finite 0) (pymax (Finite 0) (Finite (2 ^ 800))) \<and>
   fst (estimate_integral_monte_carlo (scripted_prng demo_script) integrand_function
          (Finite 0) (Finite (2 ^ 400)) 1 0 (7, 5)) = Inr NaN \<and>
   \<not> fle (Finite 0) NaN"
proof -
  have a: "integrand_function (Finite 0) = Inr (Finite 0)"
    by (rule demo_integrand_values)
  have b: "integrand_function (Finite (2 ^ 400)) = Inr (Finite (2 ^ 800))"
    by (simp add: integrand_function_def float_pow_def float_overflow_def)
  have x: "integrand_function (Finite (2 ^ 399)) = Inr (Finite (2 ^ 798))"
    by (simp add: integrand_function_def float_pow_def float_overflow_def)
  have m: "pymax (Finite 0) (Finite (2 ^ 800)) = Finite (2 ^ 800)"
    by (simp add: pymax_def)
  have u1: "uniform (scripted_prng demo_script) (Finite 0) (Finite (2 ^ 400)) (0, 0) =
              (Finite (2 ^ 399), (0, Suc 0))"
    by (simp add: uniform_def scripted_prng_def demo_script_def fsub_def fround_def
          float_overflow_def)
  have u2: "uniform (scripted_prng demo_script) (Finite 0) (Finite (2 ^ 800)) (0, Suc 0) =
              (Finite (2 ^ 799), (0, 2))"
    by (simp add: uniform_def scripted_prng_def demo_script_def fsub_def fround_def
          float_overflow_def)
  have cmp: "\<not> fle (Finite (2 ^ 799)) (Finite (2 ^ 798))"
    by simp
  have loop: "sampling_loop (scripted_prng demo_script) integrand_function (Finite 0)
                (Finite (2 ^ 400)) (Finite (2 ^ 800)) (Suc 0) 0 (0, 0) = (Inr 0, (0, 2))"
    by (simp add: u1 u2 x cmp del: power_numeral)
  have area: "fmul (fsub (Finite (2 ^ 400)) (Finite 0)) (Finite (2 ^ 800)) = PInf"
    by (simp add: fsub_def fround_def float_overflow_def)
  have ratio: "int_truediv 0 1 = Inr (Finite 0)"
    using float_overflow_gt_8 by (simp add: int_truediv_def)
  have "estimate_integral_monte_carlo (scripted_prng demo_script) integrand_function
          (Finite 0) (Finite (2 ^ 400)) 1 0 (7, 5) = (Inr NaN, (0, 2))"
    by (simp add: estimate_integral_monte_carlo_def a b m demo_seed loop area ratio
          inf_times_def del: sampling_loop.simps power_numeral)
  with a b m show ?thesis by (simp del: power_numeral)
qed

text \<open>
  Claim C10 as amended. For a valid call whose integrand returns at the two end points
  and at every point drawn, with a height \<open>max (f lower_bound) (f upper_bound)\<close> that is
  not negative and an area, the width times the height, that is finite (it does not
  overflow), the call returns a finite estimate between \<open>0\<close> and the area: the counter is
  at most \<open>samples_count\<close>, so the ratio is in \<open>[0, 1]\<close>. The sign of the integrand is
  checked nowhere; the height at the end points is all the bound needs.
\<close>

theorem estimate_within_rectangle:
  assumes "0 < samples_count" and "flt lower_bound upper_bound"
    and "f lower_bound = Inr f_lower" and "f upper_bound = Inr f_upper"
    and "list_all (\<lambda>p. returns_at f (fst p))
           (sample_points R lower_bound upper_bound (pymax f_lower f_upper)
              (nat samples_count) (seed_state R random_seed))"
    and "fle (Finite 0) (pymax f_lower f_upper)"
    and "fmul (fsub upper_bound lower_bound) (pymax f_lower f_upper) = Finite area"
  shows "\<exists>v. fst (estimate_integral_monte_carlo R f lower_bound upper_bound samples_count
                    random_seed g) = Inr (Finite v) \<and> 0 \<le> v \<and> v \<le> area"
proof -
  let ?pts = "sample_points R lower_bound upper_bound (pymax f_lower f_upper)
                (nat samples_count) (seed_state R random_seed)"
  let ?c = "length (filter (under_curve f) ?pts)"
  let ?ratio = "real ?c / real_of_int samples_count"
  from assms(2) have valid: "\<not> fle upper_bound lower_bound" by (rule flt_not_fle)
  from assms(7) obtain w h where w: "fsub upper_bound lower_bound = Finite w"
    and h: "pymax f_lower f_upper = Finite h" and area: "area = w * h"
    and small: "w * h < float_overflow"
    by (rule fmul_eq_Finite)
  from w obtain u l where ul: "upper_bound = Finite u" "lower_bound = Finite l" "w = u - l"
    by (rule fsub_eq_Finite)
  from assms(2) ul have "0 \<le> w" by simp
  moreover from assms(6) h have "0 \<le> h" by simp
  ultimately have area0: "0 \<le> area" unfolding area by (rule mult_nonneg_nonneg)
  have "?c \<le> nat samples_count" by (rule count_le)
  from int_truediv_ratio(2,3) [OF assms(1) this]
  have ratio: "0 \<le> ?ratio" "?ratio \<le> 1" .
  from ratio(1) area0 have v0: "0 \<le> ?ratio * area" by (rule mult_nonneg_nonneg)
  from ratio(2) area0 have "?ratio * area \<le> 1 * area" by (rule mult_right_mono)
  then have v1: "?ratio * area \<le> area" by simp
  from float_overflow_gt_8 v0 have "- float_overflow < ?ratio * area" by linarith
  moreover from v1 small area have "?ratio * area < float_overflow" by linarith
  ultimately have "fround (?ratio * area) = Finite (?ratio * area)" by (rule fround_Finite)
  with estimate_returns [OF assms(1) valid assms(3,4,5), of g] assms(7)
  have "fst (estimate_integral_monte_carlo R f lower_bound upper_bound samples_count
               random_seed g) = Inr (Finite (?ratio * area))"
    by simp
  with v0 v1 show ?thesis by blast
qed

text \<open>
  \<open>x\<^sup>2\<close> on \<open>[0, 2]\<close> with three points of the script: the area is \<open>8\<close>, the estimate
  \<open>16/3\<close>.
\<close>

theorem estimate_within_rectangle_witness:
  "(0::int) < 3 \<and> flt (Finite 0) (Finite 2) \<and>
   integrand_function (Finite 0) = Inr (Finite 0) \<and>
   integrand_function (Finite 2) = Inr (Finite 4) \<and>
   fle (Finite 0) (pymax (Finite 0) (Finite 4)) \<and>
   fmul (fsub (Finite 2) (Finite 0)) (pymax (Finite 0) (Finite 4)) = Finite 8 \<and>
   (\<exists>v. fst (estimate_integral_monte_carlo (scripted_prng demo_script) integrand_function
               (Finite 0) (Finite 2) 3 42 (7, 5)) = Inr (Finite v) \<and> 0 \<le> v \<and> v \<le> 8)"
proof -
  let ?R = "scripted_prng demo_script"
  have valid: "(0::int) < 3" "flt (Finite 0) (Finite 2)" by simp_all
  have m: "pymax (Finite 0) (Finite 4) = Finite 4"
    by (simp add: pymax_def)
  have r: "list_all (\<lambda>p. returns_at integrand_function (fst p))
             (sample_points ?R (Finite 0) (Finite 2) (pymax (Finite 0) (Finite 4)) (nat 3)
                (seed_state ?R 42))"
    by (simp add: m demo_seed demo_points_4 returns_at_def demo_integrand_values)
  have h: "fle (Finite 0) (pymax (Finite 0) (Finite 4))"
    by (simp add: m)
  have a: "fmul (fsub (Finite 2) (Finite 0)) (pymax (Finite 0) (Finite 4)) = Finite 8"
    by (simp add: m fsub_def fround_small)
  from estimate_within_rectangle
         [OF valid demo_integrand_values(1) demo_integrand_values(4) r h a, of "(7, 5)"]
  have "\<exists>v. fst (estimate_integral_monte_carlo ?R integrand_function
                    (Finite 0) (Finite 2) 3 42 (7, 5)) = Inr (Finite v) \<and> 0 \<le> v \<and> v \<le> 8" .
  with valid demo_integrand_values(1) demo_integrand_values(4) h a show ?thesis
    by (intro conjI)
qed

end
